theory Spec2Isabelle
  imports Main "HOL-Library.Sublist"
begin

section \<open>mpsync: pushing a local folder to a MicroPython board\<close>

text \<open>
  A shallow embedding of \<^verbatim>\<open>src/mpsync.py\<close>. The class \<^verbatim>\<open>MPSync\<close> is a record, each
  method a function that takes the object and returns it updated, together with either
  the exception that left the method (\<open>Inl\<close>) or its return value (\<open>Inr\<close>).

  The module \<^verbatim>\<open>mp\<close> (the file explorer of mpfshell) and the local filesystem are not part
  of the sources. They are a parameter of every function, the environment \<open>env\<close>: what a
  call answers may depend on every call made before, so the environment's functions take
  the list of the calls issued so far. That list, \<open>calls\<close>, and the lines printed,
  \<open>stdout\<close>, are the observable effects of a run.
\<close>

subsection \<open>Strings\<close>

text \<open>
  \<^verbatim>\<open>str.replace(old, new)\<close> of Python: every occurrence of \<open>old\<close>, found from left to
  right without overlap, is replaced; an empty \<open>old\<close> matches before every character and
  at the end.
\<close>

function replace :: "string \<Rightarrow> string \<Rightarrow> string \<Rightarrow> string" where
  "replace s old new =
     (if old = [] then new @ concat (map (\<lambda>c. c # new) s)
      else if s = [] then []
      else if prefix old s then new @ replace (drop (length old) s) old new
      else hd s # replace (tl s) old new)"
  by pat_completeness auto
termination
  by (relation "measure (\<lambda>(s, old, new). length s)") auto

declare replace.simps [simp del]

text \<open>The decimal digits of a natural number, as an f-string prints it.\<close>

fun str_nat :: "nat \<Rightarrow> string" where
  "str_nat n =
     (if n < 10 then [char_of (48 + n)]
      else str_nat (n div 10) @ [char_of (48 + n mod 10)])"

declare str_nat.simps [simp del]

subsection \<open>Exceptions, the remote explorer, the environment\<close>

text \<open>
  \<^verbatim>\<open>RemoteIOError\<close> is one exception class; the explorer tells its cases apart by the
  message only. The model keeps the case beside the message: the directory that is
  already there, and every other remote failure.
\<close>

datatype remote_io = DirectoryExists | RemoteFailure

datatype exn =
    RemoteIOError remote_io string
  | PyboardError string
  | ConError string
  | AttributeError string
  | Exception string
  | OtherError string

fun str_exn :: "exn \<Rightarrow> string" where
  "str_exn (RemoteIOError k m) = m"
| "str_exn (PyboardError m) = m"
| "str_exn (ConError m) = m"
| "str_exn (AttributeError m) = m"
| "str_exn (Exception m) = m"
| "str_exn (OtherError m) = m"

text \<open>
  An explorer object, as far as \<^verbatim>\<open>MPSync\<close> looks at it: its truth value
  (\<^verbatim>\<open>if self.explorer:\<close>) and what reading the attribute \<^verbatim>\<open>sysname\<close> gives.
\<close>

record explorer_obj =
  truthy :: bool
  sysname :: "exn + string"

text \<open>
  The calls made on the module \<^verbatim>\<open>mp.mpfexp\<close>: the constructor (caching variant or
  not, address, reset flag) and the methods of the explorer.
\<close>

datatype call =
    Construct bool string bool
  | Put string string
  | Md string
  | Rm string
  | Close

record env =
  port_exists :: "string \<Rightarrow> bool"
  port_is_dir :: "string \<Rightarrow> bool"
  new_explorer :: "call list \<Rightarrow> bool \<Rightarrow> string \<Rightarrow> bool \<Rightarrow> exn + explorer_obj"
  put_raises :: "call list \<Rightarrow> explorer_obj \<Rightarrow> string \<Rightarrow> string \<Rightarrow> exn option"
  md_raises :: "call list \<Rightarrow> explorer_obj \<Rightarrow> string \<Rightarrow> exn option"
  rm_raises :: "call list \<Rightarrow> explorer_obj \<Rightarrow> string \<Rightarrow> exn option"
  close_raises :: "call list \<Rightarrow> explorer_obj \<Rightarrow> exn option"

subsection \<open>The class MPSync\<close>

definition CONNECT_TRIES :: nat where
  "CONNECT_TRIES = 5"

definition MPF_PROTOCOL :: string where
  "MPF_PROTOCOL = ''ser''"

text \<open>
  The attributes set by \<^verbatim>\<open>__init__\<close> (\<open>explorer_attr\<close> is \<^verbatim>\<open>self._explorer\<close>,
  \<open>error_attr\<close> is \<^verbatim>\<open>self._error\<close>, \<open>ts_attr\<close> is \<^verbatim>\<open>self._ts\<close>), then the two
  components of the world.
\<close>

record mpsync =
  folder :: string
  port :: string
  reset :: bool
  caching :: bool
  explorer_attr :: "explorer_obj option"
  verbose :: bool
  error_attr :: "string list"
  ts_attr :: int
  calls :: "call list"
  stdout :: "string list"

definition init :: "string \<Rightarrow> string \<Rightarrow> bool \<Rightarrow> bool \<Rightarrow> bool \<Rightarrow> mpsync" where
  "init fld prt vrb rst cch =
     \<lparr>folder = fld, port = prt, reset = rst, caching = cch, explorer_attr = None,
      verbose = vrb, error_attr = [], ts_attr = 0, calls = [], stdout = []\<rparr>"

definition print :: "string \<Rightarrow> mpsync \<Rightarrow> mpsync" where
  "print line s = s\<lparr>stdout := stdout s @ [line]\<rparr>"

definition issue :: "call \<Rightarrow> mpsync \<Rightarrow> mpsync" where
  "issue c s = s\<lparr>calls := calls s @ [c]\<rparr>"

text \<open>The property \<^verbatim>\<open>explorer\<close>.\<close>

definition explorer :: "mpsync \<Rightarrow> exn + explorer_obj" where
  "explorer s =
     (case explorer_attr s of
        None \<Rightarrow> Inl (Exception ''unconnected, please connect!'')
      | Some h \<Rightarrow> Inr h)"

definition copy_file :: "env \<Rightarrow> string \<Rightarrow> mpsync \<Rightarrow> (exn + unit) \<times> mpsync" where
  "copy_file ev file s =
     (let dst = replace file (folder s) '''';
          s1 = print (''Copying '' @ dst) s
      in case explorer s1 of
           Inl e \<Rightarrow> (Inl e, s1)
         | Inr h \<Rightarrow>
             (case put_raises ev (calls s1) h file dst of
                Some e \<Rightarrow> (Inl e, issue (Put file dst) s1)
              | None \<Rightarrow> (Inr (), issue (Put file dst) s1)))"

definition create_folder :: "env \<Rightarrow> string \<Rightarrow> mpsync \<Rightarrow> (exn + unit) \<times> mpsync" where
  "create_folder ev fld s =
     (let dst = replace fld (folder s) '''';
          s1 = print (''Creating folder '' @ dst) s
      in case explorer s1 of
           Inl e \<Rightarrow> (Inl e, s1)
         | Inr h \<Rightarrow>
             (case md_raises ev (calls s1) h dst of
                Some (RemoteIOError k m) \<Rightarrow> (Inr (), print m (issue (Md dst) s1))
              | Some e \<Rightarrow> (Inl e, issue (Md dst) s1)
              | None \<Rightarrow> (Inr (), issue (Md dst) s1)))"

definition delete :: "env \<Rightarrow> string \<Rightarrow> mpsync \<Rightarrow> (exn + unit) \<times> mpsync" where
  "delete ev path s =
     (let dst = replace path (folder s) '''';
          s1 = print (''Deleting '' @ dst) s
      in case explorer s1 of
           Inl e \<Rightarrow> (Inl e, s1)
         | Inr h \<Rightarrow>
             (case rm_raises ev (calls s1) h dst of
                Some e \<Rightarrow> (Inl e, issue (Rm dst) s1)
              | None \<Rightarrow> (Inr (), issue (Rm dst) s1)))"

definition disconnect :: "env \<Rightarrow> mpsync \<Rightarrow> (exn + bool) \<times> mpsync" where
  "disconnect ev s =
     (case explorer_attr s of
        None \<Rightarrow> (Inr False, s)
      | Some h \<Rightarrow>
          (case close_raises ev (calls s) h of
             None \<Rightarrow> (Inr True, (issue Close s)\<lparr>explorer_attr := None\<rparr>)
           | Some (RemoteIOError k m) \<Rightarrow> (Inr False, print m (issue Close s))
           | Some e \<Rightarrow> (Inl e, issue Close s)))"

text \<open>
  The body of \<^verbatim>\<open>for i in range(self.CONNECT_TRIES)\<close>, over the values of \<open>i\<close> still
  to come. \<open>Inr True\<close> is the \<^verbatim>\<open>return True\<close> inside the loop, \<open>Inr False\<close> the loop
  running out, \<open>Inl\<close> an exception leaving the loop.
\<close>

definition address :: "mpsync \<Rightarrow> string" where
  "address s = MPF_PROTOCOL @ '':'' @ port s"

text \<open>
  The constructor call of one attempt, \<^verbatim>\<open>MpFileExplorerCaching\<close> or
  \<^verbatim>\<open>MpFileExplorer\<close> on the address with the reset flag, and the line printed after
  an attempt whose explorer tests false.
\<close>

definition attempt :: "mpsync \<Rightarrow> call" where
  "attempt s = Construct (caching s) (address s) (reset s)"

definition could_not_connect :: "string \<Rightarrow> nat \<Rightarrow> string" where
  "could_not_connect prt i =
     ''could not connect to '' @ prt @ '' ['' @ str_nat i @ ''/'' @ str_nat CONNECT_TRIES @ '']''"

fun connect_tries :: "env \<Rightarrow> nat list \<Rightarrow> mpsync \<Rightarrow> (exn + bool) \<times> mpsync" where
  "connect_tries ev [] s = (Inr False, s)"
| "connect_tries ev (i # is) s =
     (let s1 = issue (attempt s) s
      in case new_explorer ev (calls s) (caching s) (address s) (reset s) of
           Inl e \<Rightarrow> (Inl e, s1)
         | Inr h \<Rightarrow>
             (let s2 = s1\<lparr>explorer_attr := Some h\<rparr>
              in case explorer s2 of
                   Inl e \<Rightarrow> (Inl e, s2)
                 | Inr h1 \<Rightarrow>
                     if truthy h1 then
                       (case explorer s2 of
                          Inl e \<Rightarrow> (Inl e, s2)
                        | Inr h2 \<Rightarrow>
                            (case sysname h2 of
                               Inl e \<Rightarrow> (Inl e, s2)
                             | Inr name \<Rightarrow> (Inr True, print (''Connected to '' @ name) s2)))
                     else
                       connect_tries ev is (print (could_not_connect (port s2) i) s2)))"

text \<open>The clause \<^verbatim>\<open>except (PyboardError, ConError, AttributeError)\<close> of connect.\<close>

fun caught :: "exn \<Rightarrow> bool" where
  "caught (PyboardError m) = True"
| "caught (ConError m) = True"
| "caught (AttributeError m) = True"
| "caught e = False"

definition give_up :: "mpsync \<Rightarrow> (exn + bool) \<times> mpsync" where
  "give_up s = (Inr False, print (''could not connect to board '' @ port s @ ''!'') s)"

definition except :: "exn \<Rightarrow> mpsync \<Rightarrow> (exn + bool) \<times> mpsync" where
  "except e s = (if caught e then give_up (print (str_exn e) s) else (Inl e, s))"

definition connect :: "env \<Rightarrow> mpsync \<Rightarrow> (exn + bool) \<times> mpsync" where
  "connect ev s =
     (case disconnect ev s of
        (Inl e, s1) \<Rightarrow> except e s1
      | (Inr b, s1) \<Rightarrow>
          if \<not> port_exists ev (port s1) \<or> port_is_dir ev (port s1) then
            (Inr False,
             print (''Port '' @ [CHR 0x27] @ port s1 @ [CHR 0x27]
                    @ '' does not exist or is a folder!'') s1)
          else
            (case connect_tries ev [0..<CONNECT_TRIES] s1 of
               (Inl e, s2) \<Rightarrow> except e s2
             | (Inr True, s2) \<Rightarrow> (Inr True, s2)
             | (Inr False, s2) \<Rightarrow> give_up s2))"

text \<open>\<^verbatim>\<open>__enter__\<close> and \<^verbatim>\<open>__exit__\<close>.\<close>

definition enter :: "env \<Rightarrow> mpsync \<Rightarrow> (exn + unit) \<times> mpsync" where
  "enter ev s =
     (case connect ev s of
        (Inl e, s1) \<Rightarrow> (Inl e, s1)
      | (Inr True, s1) \<Rightarrow> (Inr (), s1)
      | (Inr False, s1) \<Rightarrow> (Inl (Exception ''can't connect''), s1))"

definition exit :: "env \<Rightarrow> mpsync \<Rightarrow> (exn + unit) \<times> mpsync" where
  "exit ev s =
     (case disconnect ev s of
        (Inl e, s1) \<Rightarrow> (Inl e, s1)
      | (Inr True, s1) \<Rightarrow> (Inr (), s1)
      | (Inr False, s1) \<Rightarrow> (Inl (Exception ''can't disconnect''), s1))"

subsection \<open>The walk\<close>

text \<open>
  What \<^verbatim>\<open>glob("*")\<close> lists, in the order it lists it: an entry is a directory with its
  own listing, a regular file, or neither. Each entry carries its path as
  \<^verbatim>\<open>as_posix()\<close> gives it. \<^verbatim>\<open>is_dir\<close> and \<^verbatim>\<open>is_file\<close> follow symbolic links, so
  a link to a directory is a directory here, with the listing seen through the link. The
  tree is finite: a cycle of links is outside the model.

  \<^verbatim>\<open>sync\<close> takes the listing of the directory it walks; the call without argument is
  the call on the listing of \<^verbatim>\<open>PosixPath(self.folder)\<close>.
\<close>

datatype node =
    Directory string "node list"
  | RegularFile string
  | Other string

fun sync :: "env \<Rightarrow> node list \<Rightarrow> mpsync \<Rightarrow> (exn + unit) \<times> mpsync" where
  "sync ev [] s = (Inr (), s)"
| "sync ev (Directory p sub # es) s =
     (case create_folder ev p s of
        (Inl e, s1) \<Rightarrow> (Inl e, s1)
      | (Inr u, s1) \<Rightarrow>
          (case sync ev sub s1 of
             (Inl e, s2) \<Rightarrow> (Inl e, s2)
           | (Inr u, s2) \<Rightarrow> sync ev es s2))"
| "sync ev (RegularFile p # es) s =
     (case copy_file ev p s of
        (Inl e, s1) \<Rightarrow> (Inl e, s1)
      | (Inr u, s1) \<Rightarrow> sync ev es s1)"
| "sync ev (Other p # es) s = sync ev es s"

text \<open>
  The \<^verbatim>\<open>with\<close> statement over an \<^verbatim>\<open>MPSync\<close> object, as \<^verbatim>\<open>main\<close> uses it: the body
  runs only after \<^verbatim>\<open>__enter__\<close> returned; \<^verbatim>\<open>__exit__\<close> is called when the body
  returns and when it raises; \<^verbatim>\<open>__exit__\<close> returns None, so an exception of the body
  is raised again after it, unless \<^verbatim>\<open>__exit__\<close> raised one itself.
\<close>

definition with_mpsync ::
  "env \<Rightarrow> (mpsync \<Rightarrow> (exn + 'a) \<times> mpsync) \<Rightarrow> mpsync \<Rightarrow> (exn + 'a) \<times> mpsync" where
  "with_mpsync ev body s =
     (case enter ev s of
        (Inl e, s1) \<Rightarrow> (Inl e, s1)
      | (Inr u, s1) \<Rightarrow>
          (case body s1 of
             (r, s2) \<Rightarrow>
               (case exit ev s2 of
                  (Inl e, s3) \<Rightarrow> (Inl e, s3)
                | (Inr u, s3) \<Rightarrow> (r, s3))))"

definition main :: "env \<Rightarrow> node list \<Rightarrow> mpsync \<Rightarrow> (exn + unit) \<times> mpsync" where
  "main ev tree s =
     with_mpsync ev
       (\<lambda>s1. sync ev tree
                (print (''Start syncing folder '' @ [CHR 0x27] @ folder s1 @ [CHR 0x27]
                        @ '' to board at '' @ [CHR 0x27] @ port s1 @ [CHR 0x27]) s1))
       s"

subsection \<open>Notions of the specification\<close>

text \<open>
  The remote path as the specification words it: the path with the first literal
  occurrence of the root string removed, and only that one.
\<close>

fun remove_first :: "string \<Rightarrow> string \<Rightarrow> string" where
  "remove_first old [] = []"
| "remove_first old (c # cs) =
     (if prefix old (c # cs) then drop (length old) (c # cs)
      else c # remove_first old cs)"

text \<open>
  The entries of a tree at every depth, the paths of its regular files, and the calls of
  a walk that nothing interrupts.
\<close>

fun nodes :: "node list \<Rightarrow> node list" where
  "nodes [] = []"
| "nodes (Directory p sub # es) = Directory p sub # nodes sub @ nodes es"
| "nodes (RegularFile p # es) = RegularFile p # nodes es"
| "nodes (Other p # es) = Other p # nodes es"

fun file_paths :: "node list \<Rightarrow> string list" where
  "file_paths [] = []"
| "file_paths (Directory p sub # es) = file_paths sub @ file_paths es"
| "file_paths (RegularFile p # es) = p # file_paths es"
| "file_paths (Other p # es) = file_paths es"

fun walk :: "string \<Rightarrow> node list \<Rightarrow> call list" where
  "walk root [] = []"
| "walk root (Directory p sub # es) = Md (replace p root '''') # walk root sub @ walk root es"
| "walk root (RegularFile p # es) = Put p (replace p root '''') # walk root es"
| "walk root (Other p # es) = walk root es"

fun is_entry :: "node \<Rightarrow> bool" where
  "is_entry (Directory p sub) = True"
| "is_entry (RegularFile p) = True"
| "is_entry (Other p) = False"

text \<open>
  What a call of the walk raises into \<^verbatim>\<open>sync\<close>: a put raises what the explorer raises,
  a make-directory raises what the explorer raises unless it is a \<^verbatim>\<open>RemoteIOError\<close>.
  \<open>run\<close> issues a list of calls up to the first that raises.
\<close>

fun raised :: "env \<Rightarrow> explorer_obj \<Rightarrow> call list \<Rightarrow> call \<Rightarrow> exn option" where
  "raised ev h t (Put a b) = put_raises ev t h a b"
| "raised ev h t (Md d) =
     (case md_raises ev t h d of
        Some (RemoteIOError k m) \<Rightarrow> None
      | r \<Rightarrow> r)"
| "raised ev h t c = None"

fun run :: "env \<Rightarrow> explorer_obj \<Rightarrow> call list \<Rightarrow> call list \<Rightarrow> exn option \<times> call list" where
  "run ev h t [] = (None, t)"
| "run ev h t (c # cs) =
     (case raised ev h t c of
        Some e \<Rightarrow> (Some e, t @ [c])
      | None \<Rightarrow> run ev h (t @ [c]) cs)"

subsection \<open>Example inputs\<close>

definition esp32 :: explorer_obj where
  "esp32 = \<lparr>truthy = True, sysname = Inr ''esp32''\<rparr>"

text \<open>A board that answers every call.\<close>

definition board :: env where
  "board =
     \<lparr>port_exists = (\<lambda>p. True), port_is_dir = (\<lambda>p. False),
      new_explorer = (\<lambda>t c a r. Inr esp32),
      put_raises = (\<lambda>t h a b. None), md_raises = (\<lambda>t h d. None),
      rm_raises = (\<lambda>t h d. None), close_raises = (\<lambda>t h. None)\<rparr>"

definition fresh :: mpsync where
  "fresh = init ''/r'' ''/dev/ttyUSB0'' False False False"

definition linked :: mpsync where
  "linked = fresh\<lparr>explorer_attr := Some esp32\<rparr>"

definition demo_tree :: "node list" where
  "demo_tree =
     [RegularFile ''/r/a.txt'',
      Directory ''/r/sub'' [RegularFile ''/r/sub/b.txt''],
      Other ''/r/link'']"

text \<open>An object that tests false and has no \<^verbatim>\<open>sysname\<close>.\<close>

definition limp :: explorer_obj where
  "limp = \<lparr>truthy = False, sysname = Inl (AttributeError ''sysname'')\<rparr>"

text \<open>
  Boards that misbehave: one whose \<^verbatim>\<open>close\<close> raises a remote I/O error, one whose
  explorer tests false on the first two constructions, one whose explorer always tests
  false, one that refuses every directory, and one that refuses every directory and the
  upload to \<^verbatim>\<open>/sub/b.txt\<close>.
\<close>

definition stuck_board :: env where
  "stuck_board =
     board\<lparr>close_raises := (\<lambda>t h. Some (RemoteIOError RemoteFailure ''could not close''))\<rparr>"


definition dead_board :: env where
  "dead_board = board\<lparr>new_explorer := (\<lambda>t c a r. Inr limp)\<rparr>"

definition mdless_board :: env where
  "mdless_board =
     board\<lparr>md_raises :=
       (\<lambda>t h d. Some (RemoteIOError RemoteFailure (''Invalid directory name: '' @ d)))\<rparr>"

definition picky_board :: env where
  "picky_board =
     mdless_board\<lparr>put_raises :=
       (\<lambda>t h a b. if b = ''/sub/b.txt'' then Some (RemoteIOError RemoteFailure ''write failed'')
                  else None)\<rparr>"

text \<open>
  A port that is not there, a board whose explorer cannot be constructed, and the same
  board when \<^verbatim>\<open>close\<close> raises a remote I/O error as well.
\<close>

definition unplugged :: env where
  "unplugged = board\<lparr>port_exists := (\<lambda>p. False)\<rparr>"

definition silent_board :: env where
  "silent_board = board\<lparr>new_explorer := (\<lambda>t c a r. Inl (ConError ''failed to access port''))\<rparr>"

definition stuck_silent_board :: env where
  "stuck_silent_board =
     stuck_board\<lparr>new_explorer := (\<lambda>t c a r. Inl (ConError ''failed to access port''))\<rparr>"


section \<open>Properties\<close>

subsection \<open>disconnect\<close>

text \<open>
  Claim C7. \<^verbatim>\<open>disconnect\<close> on a session without explorer returns False, raises nothing
  and calls nothing (the session, its calls included, is unchanged). When \<^verbatim>\<open>close\<close>
  raises a remote I/O error, the message is printed, False is returned and the explorer
  stays in the session. When \<^verbatim>\<open>close\<close> returns, the explorer is cleared and True is
  returned.
\<close>

theorem disconnect_cases:
  "(explorer_attr s = None \<longrightarrow> disconnect ev s = (Inr False, s)) \<and>
   (\<forall>h k m. explorer_attr s = Some h \<and> close_raises ev (calls s) h = Some (RemoteIOError k m) \<longrightarrow>
      disconnect ev s = (Inr False, print m (issue Close s)) \<and>
      explorer_attr (snd (disconnect ev s)) = Some h) \<and>
   (\<forall>h. explorer_attr s = Some h \<and> close_raises ev (calls s) h = None \<longrightarrow>
      fst (disconnect ev s) = Inr True \<and>
      explorer_attr (snd (disconnect ev s)) = None \<and>
      calls (snd (disconnect ev s)) = calls s @ [Close])"
  by (simp add: disconnect_def print_def issue_def)

theorem disconnect_cases_witness:
  "explorer_attr fresh = None \<and> disconnect board fresh = (Inr False, fresh) \<and>
   explorer_attr linked = Some esp32 \<and>
   close_raises stuck_board (calls linked) esp32 = Some (RemoteIOError RemoteFailure ''could not close'') \<and>
   fst (disconnect stuck_board linked) = Inr False \<and>
   stdout (snd (disconnect stuck_board linked)) = [''could not close''] \<and>
   explorer_attr (snd (disconnect stuck_board linked)) = Some esp32 \<and>
   close_raises board (calls linked) esp32 = None \<and>
   fst (disconnect board linked) = Inr True \<and>
   explorer_attr (snd (disconnect board linked)) = None \<and>
   calls (snd (disconnect board linked)) = [Close]"
proof -
  have a: "explorer_attr fresh = None"
    by (simp add: fresh_def init_def)
  have b: "explorer_attr linked = Some esp32"
    by (simp add: linked_def)
  have c: "close_raises stuck_board (calls linked) esp32
             = Some (RemoteIOError RemoteFailure ''could not close'')"
    by (simp add: stuck_board_def)
  have d: "close_raises board (calls linked) esp32 = None"
    by (simp add: board_def)
  have e: "calls linked = []"
    by (simp add: linked_def fresh_def init_def)
  have f: "stdout linked = []"
    by (simp add: linked_def fresh_def init_def)
  show ?thesis
    using a b c d e f disconnect_cases [of fresh board] disconnect_cases [of linked stuck_board]
      disconnect_cases [of linked board]
    by (simp add: print_def issue_def)
qed

subsection \<open>sync on a session that is not connected\<close>

lemma sync_unconnected:
  "explorer_attr s = None \<Longrightarrow>
   fst (sync ev es s) =
     (if \<exists>n\<in>set es. is_entry n then Inl (Exception ''unconnected, please connect!'')
      else Inr ())
   \<and> calls (snd (sync ev es s)) = calls s \<and> explorer_attr (snd (sync ev es s)) = None"
proof (induction es)
  case Nil
  then show ?case by simp
next
  case (Cons n es)
  then show ?case
    by (cases n) (simp_all add: create_folder_def copy_file_def explorer_def print_def Let_def)
qed

text \<open>
  Claim C10. On a session without explorer, \<^verbatim>\<open>sync\<close> raises the exception of the
  property \<^verbatim>\<open>explorer\<close> exactly when the listing of the walked directory holds a
  directory or a regular file, and returns otherwise; in both cases no call reaches the
  remote side. On an empty listing it returns at once, the session unchanged.
\<close>

theorem sync_unconnected_iff:
  assumes "explorer_attr s = None"
  shows "(fst (sync ev es s) = Inl (Exception ''unconnected, please connect!'')
            \<longleftrightarrow> (\<exists>n\<in>set es. is_entry n)) \<and>
         (fst (sync ev es s) = Inr () \<longleftrightarrow> \<not> (\<exists>n\<in>set es. is_entry n)) \<and>
         calls (snd (sync ev es s)) = calls s \<and>
         sync ev [] s = (Inr (), s)"
  using sync_unconnected [OF assms, of ev es] by simp

theorem sync_unconnected_iff_witness:
  "explorer_attr fresh = None \<and>
   fst (sync board demo_tree fresh) = Inl (Exception ''unconnected, please connect!'') \<and>
   fst (sync board [Other ''/r/link''] fresh) = Inr () \<and>
   calls (snd (sync board demo_tree fresh)) = [] \<and>
   sync board [] fresh = (Inr (), fresh)"
proof -
  have a: "explorer_attr fresh = None"
    by (simp add: fresh_def init_def)
  have b: "calls fresh = []"
    by (simp add: fresh_def init_def)
  show ?thesis
    using a b sync_unconnected_iff [OF a, of board demo_tree]
      sync_unconnected_iff [OF a, of board "[Other ''/r/link'']"]
    by (simp add: demo_tree_def)
qed

subsection \<open>The walk as a list of calls\<close>

text \<open>
  On a connected session \<^verbatim>\<open>sync\<close> issues the calls of the walk one after the other and
  stops at the first that raises; this is the lemma the properties of the walk rest on.
\<close>

lemma run_append:
  "run ev h t (xs @ ys) =
     (case run ev h t xs of (Some e, t') \<Rightarrow> (Some e, t') | (None, t') \<Rightarrow> run ev h t' ys)"
  by (induction xs arbitrary: t) (auto split: option.splits)

lemma create_folder_connected:
  assumes "explorer_attr s = Some h"
  shows "calls (snd (create_folder ev p s)) = calls s @ [Md (replace p (folder s) '''')]"
    and "explorer_attr (snd (create_folder ev p s)) = Some h"
    and "folder (snd (create_folder ev p s)) = folder s"
    and "fst (create_folder ev p s) =
           (case raised ev h (calls s) (Md (replace p (folder s) '''')) of
              Some e \<Rightarrow> Inl e | None \<Rightarrow> Inr ())"
  using assms
  by (auto simp: create_folder_def explorer_def print_def issue_def Let_def
           split: option.splits exn.splits)

lemma copy_file_connected:
  assumes "explorer_attr s = Some h"
  shows "calls (snd (copy_file ev p s)) = calls s @ [Put p (replace p (folder s) '''')]"
    and "explorer_attr (snd (copy_file ev p s)) = Some h"
    and "folder (snd (copy_file ev p s)) = folder s"
    and "fst (copy_file ev p s) =
           (case raised ev h (calls s) (Put p (replace p (folder s) '''')) of
              Some e \<Rightarrow> Inl e | None \<Rightarrow> Inr ())"
  using assms
  by (auto simp: copy_file_def explorer_def print_def issue_def Let_def
           split: option.splits exn.splits)

lemma sync_run:
  "explorer_attr s = Some h \<Longrightarrow>
   run ev h (calls s) (walk (folder s) es) =
     (case fst (sync ev es s) of Inl e \<Rightarrow> Some e | Inr u \<Rightarrow> None, calls (snd (sync ev es s)))
   \<and> explorer_attr (snd (sync ev es s)) = Some h
   \<and> folder (snd (sync ev es s)) = folder s"
proof (induction ev es s rule: sync.induct)
  case (1 ev s)
  then show ?case by simp
next
  case (2 ev p sub es s)
  obtain r1 s1 where c: "create_folder ev p s = (r1, s1)" by fastforce
  note cf = create_folder_connected[OF "2.prems", of ev p, unfolded c fst_conv snd_conv]
  show ?case
  proof (cases r1)
    case (Inl e)
    with c cf show ?thesis by (auto split: option.splits)
  next
    case (Inr u)
    obtain r2 s2 where d: "sync ev sub s1 = (r2, s2)" by fastforce
    note ih1 = "2.IH"(1)[OF c[unfolded Inr, symmetric] refl cf(2)[unfolded Inr], unfolded d fst_conv snd_conv]
    show ?thesis
    proof (cases r2)
      case (Inl e)
      with c cf d Inr ih1 show ?thesis by (auto simp: run_append split: option.splits)
    next
      case (Inr u2)
      note ih2 = "2.IH"(2)[OF c[unfolded \<open>r1 = Inr u\<close>, symmetric] refl d[unfolded Inr, symmetric] refl]
      with c cf d Inr \<open>r1 = Inr u\<close> ih1 show ?thesis by (auto simp: run_append split: option.splits)
    qed
  qed
next
  case (3 ev p es s)
  obtain r1 s1 where c: "copy_file ev p s = (r1, s1)" by fastforce
  note cf = copy_file_connected[OF "3.prems", of ev p, unfolded c fst_conv snd_conv]
  show ?case
  proof (cases r1)
    case (Inl e)
    with c cf show ?thesis by (auto split: option.splits)
  next
    case (Inr u)
    note ih = "3.IH"[OF c[unfolded Inr, symmetric] refl]
    with c cf Inr show ?thesis by (auto split: option.splits)
  qed
next
  case (4 ev p es s)
  then show ?case by simp
qed

lemma run_extends: "\<exists>u. snd (run ev h t cs) = t @ u \<and> prefix u cs"
proof (induction cs arbitrary: t)
  case Nil
  then show ?case by simp
next
  case (Cons c cs)
  show ?case
  proof (cases "raised ev h t c")
    case None
    from Cons[of "t @ [c]"] obtain u where "snd (run ev h (t @ [c]) cs) = (t @ [c]) @ u" "prefix u cs"
      by blast
    with None show ?thesis by (intro exI[of _ "c # u"]) simp
  next
    case (Some e)
    then show ?thesis by (intro exI[of _ "[c]"]) simp
  qed
qed

lemma run_complete: "fst (run ev h t cs) = None \<Longrightarrow> snd (run ev h t cs) = t @ cs"
  by (induction cs arbitrary: t) (auto split: option.splits)

lemma run_raises:
  "fst (run ev h t cs) = Some e \<Longrightarrow>
   \<exists>pre c. snd (run ev h t cs) = t @ pre @ [c] \<and> raised ev h (t @ pre) c = Some e"
proof (induction cs arbitrary: t)
  case Nil
  then show ?case by simp
next
  case (Cons c cs)
  show ?case
  proof (cases "raised ev h t c")
    case None
    with Cons.prems have "fst (run ev h (t @ [c]) cs) = Some e" by simp
    from Cons.IH[OF this] obtain pre c' where
      "snd (run ev h (t @ [c]) cs) = (t @ [c]) @ pre @ [c']" "raised ev h ((t @ [c]) @ pre) c' = Some e"
      by blast
    with None show ?thesis by (intro exI[of _ "c # pre"] exI[of _ c']) simp
  next
    case (Some e')
    with Cons.prems show ?thesis by (intro exI[of _ "[]"] exI[of _ c]) simp
  qed
qed

lemma run_stops:
  "snd (run ev h t cs) = t @ pre @ c # post \<Longrightarrow> raised ev h (t @ pre) c = Some e \<Longrightarrow>
   post = [] \<and> fst (run ev h t cs) = Some e"
proof (induction cs arbitrary: t pre)
  case Nil
  then show ?case by simp
next
  case (Cons c' cs)
  show ?case
  proof (cases "raised ev h t c'")
    case None
    with Cons.prems(1) have eq: "snd (run ev h (t @ [c']) cs) = t @ pre @ c # post" by simp
    from run_extends[of ev h "t @ [c']" cs] obtain u where
      u: "snd (run ev h (t @ [c']) cs) = (t @ [c']) @ u" by blast
    with eq have "c' # u = pre @ c # post" by simp
    with None Cons.prems(2) obtain pre' where pre: "pre = c' # pre'"
      by (cases pre) auto
    with eq have "snd (run ev h (t @ [c']) cs) = (t @ [c']) @ pre' @ c # post" by simp
    from Cons.IH[OF this] Cons.prems(2) pre None show ?thesis by simp
  next
    case (Some e')
    with Cons.prems(1) have "[c'] = pre @ c # post" by simp
    then have "pre = []" "c = c'" "post = []" by (auto simp: Cons_eq_append_conv)
    with Some Cons.prems(2) show ?thesis by simp
  qed
qed

lemma walk_calls: "c \<in> set (walk root es) \<Longrightarrow> (\<exists>d. c = Md d) \<or> (\<exists>a b. c = Put a b)"
  by (induction root es rule: walk.induct) auto

lemma walk_puts: "Put q d \<in> set (walk root es) \<Longrightarrow> q \<in> set (file_paths es)"
  by (induction root es rule: walk.induct) auto

lemma files_direct: "RegularFile q \<in> set es \<Longrightarrow> q \<in> set (file_paths es)"
  by (induction es rule: file_paths.induct) auto

lemma nodes_files:
  "Directory p sub \<in> set (nodes es) \<Longrightarrow> RegularFile q \<in> set sub \<Longrightarrow> q \<in> set (file_paths es)"
  by (induction es arbitrary: p sub rule: nodes.induct) (auto dest: files_direct)

lemma sync_calls_prefix:
  "\<exists>t. calls (snd (sync ev es s)) = calls s @ t \<and> prefix t (walk (folder s) es)"
proof (cases "explorer_attr s")
  case None
  from sync_unconnected[OF this, of ev es] show ?thesis by simp
next
  case (Some h)
  from sync_run[OF this, of ev es] have "snd (run ev h (calls s) (walk (folder s) es)) = calls (snd (sync ev es s))"
    by simp
  with run_extends[of ev h "calls s" "walk (folder s) es"] show ?thesis by auto
qed

lemma walk_parent_first:
  "distinct (file_paths es) \<Longrightarrow> Directory p sub \<in> set (nodes es) \<Longrightarrow> RegularFile q \<in> set sub \<Longrightarrow>
   walk root es = pre @ Put q d # post \<Longrightarrow> Md (replace p root '''') \<in> set pre"
proof (induction root es arbitrary: pre post rule: walk.induct)
  case (1 root)
  then show ?case by simp
next
  case (2 root p' sub' es)
  from "2.prems"(4) obtain pre' where pre: "pre = Md (replace p' root '''') # pre'"
    and rest: "walk root sub' @ walk root es = pre' @ Put q d # post"
    by (cases pre) auto
  from "2.prems"(1) have dis: "distinct (file_paths sub')" "distinct (file_paths es)"
    "set (file_paths sub') \<inter> set (file_paths es) = {}" by auto
  from "2.prems"(2) consider
    (here) "p = p'" "sub = sub'" | (below) "Directory p sub \<in> set (nodes sub')"
    | (after) "Directory p sub \<in> set (nodes es)" by auto
  then show ?case
  proof cases
    case here
    with pre show ?thesis by simp
  next
    case below
    from nodes_files[OF below "2.prems"(3)] dis(3) have "q \<notin> set (file_paths es)" by auto
    then have no: "Put q d \<notin> set (walk root es)" using walk_puts by blast
    from rest obtain us where
      "(walk root sub' = pre' @ us \<and> us @ walk root es = Put q d # post) \<or>
       (walk root sub' @ us = pre' \<and> walk root es = us @ Put q d # post)"
      by (auto simp: append_eq_append_conv2)
    with no obtain us' where "walk root sub' = pre' @ Put q d # us'"
      by (cases us) auto
    from "2.IH"(1)[OF dis(1) below "2.prems"(3) this] pre show ?thesis by simp
  next
    case after
    from nodes_files[OF after "2.prems"(3)] dis(3) have "q \<notin> set (file_paths sub')" by auto
    then have no: "Put q d \<notin> set (walk root sub')" using walk_puts by blast
    from rest obtain us where
      "(walk root sub' = pre' @ us \<and> us @ walk root es = Put q d # post) \<or>
       (walk root sub' @ us = pre' \<and> walk root es = us @ Put q d # post)"
      by (auto simp: append_eq_append_conv2)
    with no obtain us' where us: "pre' = walk root sub' @ us'" "walk root es = us' @ Put q d # post"
      by (cases us) auto
    from "2.IH"(2)[OF dis(2) after "2.prems"(3) us(2)] pre us(1) show ?thesis by simp
  qed
next
  case (3 root p' es)
  from "3.prems"(2,3) nodes_files have "q \<in> set (file_paths es)" by auto
  with "3.prems"(1) have "q \<noteq> p'" by auto
  with "3.prems"(4) obtain pre' where pre: "pre = Put p' (replace p' root '''') # pre'"
    and rest: "walk root es = pre' @ Put q d # post"
    by (cases pre) auto
  from "3.prems"(1,2) have "distinct (file_paths es)" "Directory p sub \<in> set (nodes es)" by auto
  from "3.IH"[OF this "3.prems"(3) rest] pre show ?case by simp
next
  case (4 root p' es)
  then show ?case by auto
qed

lemma walk_md: "Directory p sub \<in> set (nodes es) \<Longrightarrow> Md (replace p root '''') \<in> set (walk root es)"
  by (induction root es rule: walk.induct) auto

lemma walk_put_listed: "RegularFile q \<in> set es \<Longrightarrow> Put q (replace q root '''') \<in> set (walk root es)"
  by (induction root es rule: walk.induct) auto

lemma walk_put_direct:
  "Directory p sub \<in> set (nodes es) \<Longrightarrow> RegularFile q \<in> set sub \<Longrightarrow>
   Put q (replace q root '''') \<in> set (walk root es)"
  by (induction root es rule: walk.induct) (auto dest: walk_put_listed)

lemma sync_returns_walk:
  assumes "explorer_attr s = Some h" and "fst (sync ev es s) = Inr ()"
  shows "calls (snd (sync ev es s)) = calls s @ walk (folder s) es"
proof -
  from sync_run [OF assms(1), of ev es] assms(2) have
    "fst (run ev h (calls s) (walk (folder s) es)) = None"
    "snd (run ev h (calls s) (walk (folder s) es)) = calls (snd (sync ev es s))"
    by simp_all
  with run_complete show ?thesis by metis
qed

lemma demo_run:
  "sync board demo_tree linked =
     (Inr (), linked\<lparr>calls := [Put ''/r/a.txt'' ''/a.txt'', Md ''/sub'', Put ''/r/sub/b.txt'' ''/sub/b.txt''],
        stdout := [''Copying /a.txt'', ''Creating folder /sub'', ''Copying /sub/b.txt'']\<rparr>)"
  by code_simp

subsection \<open>What the walk issues, and in which order\<close>

text \<open>
  Claim C9. Whatever the tree, the session and the answers of the board, the calls that
  \<^verbatim>\<open>sync\<close> adds are make-directory and put calls only: the walk issues no remove call
  (and no close and no constructor call either).
\<close>

theorem sync_never_removes:
  "\<exists>t. calls (snd (sync ev es s)) = calls s @ t \<and>
       (\<forall>c\<in>set t. (\<exists>d. c = Md d) \<or> (\<exists>a b. c = Put a b))"
proof -
  from sync_calls_prefix [of ev es s] obtain t where
    t: "calls (snd (sync ev es s)) = calls s @ t" "prefix t (walk (folder s) es)"
    by blast
  from t(2) have "set t \<subseteq> set (walk (folder s) es)"
    by (rule set_mono_prefix)
  with walk_calls have "\<forall>c\<in>set t. (\<exists>d. c = Md d) \<or> (\<exists>a b. c = Put a b)"
    by blast
  with t(1) show ?thesis by blast
qed

theorem sync_never_removes_witness:
  "calls (snd (sync board demo_tree linked)) =
     calls linked @ [Put ''/r/a.txt'' ''/a.txt'', Md ''/sub'', Put ''/r/sub/b.txt'' ''/sub/b.txt''] \<and>
   list_all (\<lambda>c. (\<exists>d. c = Md d) \<or> (\<exists>a b. c = Put a b))
     [Put ''/r/a.txt'' ''/a.txt'', Md ''/sub'', Put ''/r/sub/b.txt'' ''/sub/b.txt'']"
proof -
  have e: "calls (snd (sync board demo_tree linked)) =
     calls linked @ [Put ''/r/a.txt'' ''/a.txt'', Md ''/sub'', Put ''/r/sub/b.txt'' ''/sub/b.txt'']"
    by (simp add: demo_run) (simp add: linked_def fresh_def init_def)
  from sync_never_removes [of board demo_tree linked] obtain t where
    t: "calls (snd (sync board demo_tree linked)) = calls linked @ t"
       "\<forall>c\<in>set t. (\<exists>d. c = Md d) \<or> (\<exists>a b. c = Put a b)"
    by blast
  from e t(1) have "t = [Put ''/r/a.txt'' ''/a.txt'', Md ''/sub'', Put ''/r/sub/b.txt'' ''/sub/b.txt'']"
    by simp
  with t(2) have "list_all (\<lambda>c. (\<exists>d. c = Md d) \<or> (\<exists>a b. c = Put a b))
     [Put ''/r/a.txt'' ''/a.txt'', Md ''/sub'', Put ''/r/sub/b.txt'' ''/sub/b.txt'']"
    unfolding list_all_iff by blast
  with e show ?thesis by blast
qed

text \<open>
  Claim C4. Take a tree whose regular files have pairwise distinct paths (a path names
  one entry) and a directory of the tree at any depth, empty or not. In every run of
  \<^verbatim>\<open>sync\<close>, whatever the session and the board, a put for a file listed directly in
  the directory is preceded by the make-directory call for the remote path of the
  directory. In a run on a connected session that returns, the make-directory call of
  the directory is issued, and the put of every file listed directly in it is issued
  after it.
\<close>

theorem sync_parent_before_child:
  assumes "distinct (file_paths es)"
    and "Directory p sub \<in> set (nodes es)"
    and "calls (snd (sync ev es s)) = calls s @ t"
  shows "(\<forall>q d pre post. RegularFile q \<in> set sub \<and> t = pre @ Put q d # post \<longrightarrow>
            Md (replace p (folder s) '''') \<in> set pre) \<and>
         (explorer_attr s \<noteq> None \<and> fst (sync ev es s) = Inr () \<longrightarrow>
            Md (replace p (folder s) '''') \<in> set t \<and>
            (\<forall>q. RegularFile q \<in> set sub \<longrightarrow>
               (\<exists>pre post. t = pre @ Put q (replace q (folder s) '''') # post \<and>
                           Md (replace p (folder s) '''') \<in> set pre)))"
proof (intro conjI allI impI)
  fix q d pre post
  assume a: "RegularFile q \<in> set sub \<and> t = pre @ Put q d # post"
  from sync_calls_prefix [of ev es s] assms(3) a
  have "prefix (pre @ Put q d # post) (walk (folder s) es)"
    by auto
  then obtain rest where "walk (folder s) es = pre @ Put q d # (post @ rest)"
    by (auto simp: prefix_def)
  from walk_parent_first [OF assms(1,2) _ this] a
  show "Md (replace p (folder s) '''') \<in> set pre" by blast
next
  assume b: "explorer_attr s \<noteq> None \<and> fst (sync ev es s) = Inr ()"
  then obtain h where "explorer_attr s = Some h" by auto
  from sync_returns_walk [OF this] b assms(3) have t: "t = walk (folder s) es" by simp
  with walk_md [OF assms(2)] show "Md (replace p (folder s) '''') \<in> set t" by simp
  fix q
  assume q: "RegularFile q \<in> set sub"
  from walk_put_direct [OF assms(2) q, of "folder s"] t
  obtain pre post where split: "t = pre @ Put q (replace q (folder s) '''') # post"
    by (auto dest: split_list)
  with t have "walk (folder s) es = pre @ Put q (replace q (folder s) '''') # post" by simp
  from walk_parent_first [OF assms(1,2) q this] split
  show "\<exists>pre post. t = pre @ Put q (replace q (folder s) '''') # post \<and>
                    Md (replace p (folder s) '''') \<in> set pre" by blast
qed

theorem sync_parent_before_child_witness:
  "distinct (file_paths demo_tree) \<and>
   Directory ''/r/sub'' [RegularFile ''/r/sub/b.txt''] \<in> set (nodes demo_tree) \<and>
   explorer_attr linked \<noteq> None \<and>
   sync board demo_tree linked =
     (Inr (), linked\<lparr>calls := [Put ''/r/a.txt'' ''/a.txt'', Md ''/sub'', Put ''/r/sub/b.txt'' ''/sub/b.txt''],
        stdout := [''Copying /a.txt'', ''Creating folder /sub'', ''Copying /sub/b.txt'']\<rparr>) \<and>
   Md (replace ''/r/sub'' (folder linked) '''') \<in> set [Put ''/r/a.txt'' ''/a.txt'', Md ''/sub''] \<and>
   distinct (file_paths [Directory ''/r/empty'' []]) \<and>
   Directory ''/r/empty'' [] \<in> set (nodes [Directory ''/r/empty'' []]) \<and>
   fst (sync board [Directory ''/r/empty'' []] linked) = Inr () \<and>
   calls (snd (sync board [Directory ''/r/empty'' []] linked)) = calls linked @ [Md ''/empty''] \<and>
   Md (replace ''/r/empty'' (folder linked) '''') \<in> set [Md ''/empty'']"
proof -
  have a: "distinct (file_paths demo_tree)"
    by (simp add: demo_tree_def)
  have b: "Directory ''/r/sub'' [RegularFile ''/r/sub/b.txt''] \<in> set (nodes demo_tree)"
    by (simp add: demo_tree_def)
  have c: "explorer_attr linked \<noteq> None"
    by (simp add: linked_def)
  have d: "calls (snd (sync board demo_tree linked)) =
     calls linked @ [Put ''/r/a.txt'' ''/a.txt'', Md ''/sub''] @ Put ''/r/sub/b.txt'' ''/sub/b.txt'' # []"
    by (simp add: demo_run) (simp add: linked_def fresh_def init_def)
  have a': "distinct (file_paths [Directory ''/r/empty'' []])"
    by simp
  have b': "Directory ''/r/empty'' [] \<in> set (nodes [Directory ''/r/empty'' []])"
    by simp
  have e': "fst (sync board [Directory ''/r/empty'' []] linked) = Inr ()"
    by code_simp
  have d': "calls (snd (sync board [Directory ''/r/empty'' []] linked)) = calls linked @ [Md ''/empty'']"
    by code_simp
  from sync_parent_before_child [OF a b d]
  have "RegularFile ''/r/sub/b.txt'' \<in> set [RegularFile ''/r/sub/b.txt''] \<and>
        [Put ''/r/a.txt'' ''/a.txt'', Md ''/sub''] @ Put ''/r/sub/b.txt'' ''/sub/b.txt'' # []
          = [Put ''/r/a.txt'' ''/a.txt'', Md ''/sub''] @ Put ''/r/sub/b.txt'' ''/sub/b.txt'' # [] \<longrightarrow>
        Md (replace ''/r/sub'' (folder linked) '''') \<in> set [Put ''/r/a.txt'' ''/a.txt'', Md ''/sub'']"
    by blast
  then have one: "Md (replace ''/r/sub'' (folder linked) '''') \<in> set [Put ''/r/a.txt'' ''/a.txt'', Md ''/sub'']"
    by simp
  from sync_parent_before_child [OF a' b' d'] c e'
  have two: "Md (replace ''/r/empty'' (folder linked) '''') \<in> set [Md ''/empty'']"
    by blast
  from a b c demo_run one a' b' e' d' two show ?thesis by blast
qed

subsection \<open>Remote errors during the walk\<close>

text \<open>
  Claim C3 does not hold as stated. On a board whose make-directory raises a remote I/O
  error that is not the directory-exists one, \<^verbatim>\<open>sync\<close> still goes into the directory,
  uploads, and returns normally.
\<close>

theorem md_failure_swallowed:
  "md_raises mdless_board (calls linked) esp32 ''/sub''
     = Some (RemoteIOError RemoteFailure ''Invalid directory name: /sub'') \<and>
   fst (sync mdless_board [Directory ''/r/sub'' [RegularFile ''/r/sub/b.txt''], RegularFile ''/r/a.txt''] linked)
     = Inr () \<and>
   calls (snd (sync mdless_board
                 [Directory ''/r/sub'' [RegularFile ''/r/sub/b.txt''], RegularFile ''/r/a.txt''] linked))
     = [Md ''/sub'', Put ''/r/sub/b.txt'' ''/sub/b.txt'', Put ''/r/a.txt'' ''/a.txt'']"
  by code_simp

text \<open>
  Claim C3, amended. On a connected session: every \<^verbatim>\<open>RemoteIOError\<close> raised by
  make-directory, of either kind, is swallowed by \<^verbatim>\<open>_create_folder\<close>, which prints
  the message and returns; every exception raised by put, and every exception other than
  \<^verbatim>\<open>RemoteIOError\<close> raised by make-directory, leaves \<^verbatim>\<open>sync\<close> and is the last call of
  the run. Conversely a run that raises ends with such a call, and a run that returns
  has issued the whole walk.
\<close>

theorem sync_error_policy:
  assumes "explorer_attr s = Some h"
  shows "\<exists>t. calls (snd (sync ev es s)) = calls s @ t \<and>
     (\<forall>k m. md_raises ev (calls s) h (replace p (folder s) '''') = Some (RemoteIOError k m) \<longrightarrow>
        create_folder ev p s =
          (Inr (), print m (issue (Md (replace p (folder s) ''''))
                              (print (''Creating folder '' @ replace p (folder s) '''') s)))) \<and>
     (\<forall>pre a b post e. t = pre @ Put a b # post \<and> put_raises ev (calls s @ pre) h a b = Some e \<longrightarrow>
        post = [] \<and> fst (sync ev es s) = Inl e) \<and>
     (\<forall>pre d post e. t = pre @ Md d # post \<and> md_raises ev (calls s @ pre) h d = Some e \<and>
        (\<forall>k m. e \<noteq> RemoteIOError k m) \<longrightarrow> post = [] \<and> fst (sync ev es s) = Inl e) \<and>
     (\<forall>e. fst (sync ev es s) = Inl e \<longrightarrow>
        (\<exists>pre a b. t = pre @ [Put a b] \<and> put_raises ev (calls s @ pre) h a b = Some e) \<or>
        (\<exists>pre d. t = pre @ [Md d] \<and> md_raises ev (calls s @ pre) h d = Some e \<and>
                  (\<forall>k m. e \<noteq> RemoteIOError k m))) \<and>
     (fst (sync ev es s) = Inr () \<longrightarrow> t = walk (folder s) es)"
proof -
  let ?r = "run ev h (calls s) (walk (folder s) es)"
  from sync_run [OF assms, of ev es] have
    fst_run: "fst ?r = (case fst (sync ev es s) of Inl e \<Rightarrow> Some e | Inr u \<Rightarrow> None)"
    and snd_run: "snd ?r = calls (snd (sync ev es s))"
    by simp_all
  from run_extends [of ev h "calls s" "walk (folder s) es"] snd_run obtain t where
    t: "calls (snd (sync ev es s)) = calls s @ t"
    by auto
  have swallow: "\<forall>k m. md_raises ev (calls s) h (replace p (folder s) '''') = Some (RemoteIOError k m) \<longrightarrow>
        create_folder ev p s =
          (Inr (), print m (issue (Md (replace p (folder s) ''''))
                              (print (''Creating folder '' @ replace p (folder s) '''') s)))"
    using assms by (simp add: create_folder_def explorer_def print_def Let_def)
  have put: "post = [] \<and> fst (sync ev es s) = Inl e"
    if "t = pre @ Put a b # post" "put_raises ev (calls s @ pre) h a b = Some e" for pre a b post e
  proof -
    from that(1) t snd_run have "snd ?r = calls s @ pre @ Put a b # post" by simp
    moreover from that(2) have "raised ev h (calls s @ pre) (Put a b) = Some e" by simp
    ultimately have "post = [] \<and> fst ?r = Some e" by (rule run_stops)
    with fst_run show ?thesis by (auto split: sum.splits)
  qed
  have md: "post = [] \<and> fst (sync ev es s) = Inl e"
    if "t = pre @ Md d # post" "md_raises ev (calls s @ pre) h d = Some e"
      "\<forall>k m. e \<noteq> RemoteIOError k m" for pre d post e
  proof -
    from that(1) t snd_run have "snd ?r = calls s @ pre @ Md d # post" by simp
    moreover from that(2,3) have "raised ev h (calls s @ pre) (Md d) = Some e"
      by (cases e) simp_all
    ultimately have "post = [] \<and> fst ?r = Some e" by (rule run_stops)
    with fst_run show ?thesis by (auto split: sum.splits)
  qed
  have abort: "(\<exists>pre a b. t = pre @ [Put a b] \<and> put_raises ev (calls s @ pre) h a b = Some e) \<or>
        (\<exists>pre d. t = pre @ [Md d] \<and> md_raises ev (calls s @ pre) h d = Some e \<and>
                  (\<forall>k m. e \<noteq> RemoteIOError k m))"
    if "fst (sync ev es s) = Inl e" for e
  proof -
    from that fst_run have "fst ?r = Some e" by simp
    from run_raises [OF this] snd_run t obtain pre c where
      c: "t = pre @ [c]" "raised ev h (calls s @ pre) c = Some e"
      by auto
    show ?thesis
    proof (cases c)
      case (Put a b)
      with c show ?thesis by auto
    next
      case (Md d)
      with c show ?thesis by (auto split: option.splits exn.splits)
    qed (use c in auto)
  qed
  have complete: "t = walk (folder s) es" if "fst (sync ev es s) = Inr ()"
  proof -
    from that fst_run have "fst ?r = None" by simp
    from run_complete [OF this] snd_run t show ?thesis by simp
  qed
  show ?thesis
  proof (intro exI [of _ t] conjI)
    show "calls (snd (sync ev es s)) = calls s @ t"
      by (rule t)
    show "\<forall>k m. md_raises ev (calls s) h (replace p (folder s) '''') = Some (RemoteIOError k m) \<longrightarrow>
        create_folder ev p s =
          (Inr (), print m (issue (Md (replace p (folder s) ''''))
                              (print (''Creating folder '' @ replace p (folder s) '''') s)))"
      by (rule swallow)
    show "\<forall>pre a b post e. t = pre @ Put a b # post \<and> put_raises ev (calls s @ pre) h a b = Some e \<longrightarrow>
        post = [] \<and> fst (sync ev es s) = Inl e"
      using put by blast
    show "\<forall>pre d post e. t = pre @ Md d # post \<and> md_raises ev (calls s @ pre) h d = Some e \<and>
        (\<forall>k m. e \<noteq> RemoteIOError k m) \<longrightarrow> post = [] \<and> fst (sync ev es s) = Inl e"
      using md by blast
    show "\<forall>e. fst (sync ev es s) = Inl e \<longrightarrow>
        (\<exists>pre a b. t = pre @ [Put a b] \<and> put_raises ev (calls s @ pre) h a b = Some e) \<or>
        (\<exists>pre d. t = pre @ [Md d] \<and> md_raises ev (calls s @ pre) h d = Some e \<and>
                  (\<forall>k m. e \<noteq> RemoteIOError k m))"
      using abort by blast
    show "fst (sync ev es s) = Inr () \<longrightarrow> t = walk (folder s) es"
      using complete by blast
  qed
qed

theorem sync_error_policy_witness:
  "explorer_attr linked = Some esp32 \<and>
   md_raises picky_board (calls linked @ [Put ''/r/a.txt'' ''/a.txt'']) esp32 ''/sub''
     = Some (RemoteIOError RemoteFailure ''Invalid directory name: /sub'') \<and>
   put_raises picky_board (calls linked @ [Put ''/r/a.txt'' ''/a.txt'', Md ''/sub'']) esp32
       ''/r/sub/b.txt'' ''/sub/b.txt''
     = Some (RemoteIOError RemoteFailure ''write failed'') \<and>
   sync picky_board
     [RegularFile ''/r/a.txt'', Directory ''/r/sub'' [RegularFile ''/r/sub/b.txt''],
      RegularFile ''/r/c.txt''] linked =
     (Inl (RemoteIOError RemoteFailure ''write failed''),
      linked\<lparr>calls := [Put ''/r/a.txt'' ''/a.txt'', Md ''/sub'', Put ''/r/sub/b.txt'' ''/sub/b.txt''],
        stdout := [''Copying /a.txt'', ''Creating folder /sub'', ''Invalid directory name: /sub'',
                   ''Copying /sub/b.txt'']\<rparr>)"
proof -
  have a: "explorer_attr linked = Some esp32"
    by (simp add: linked_def)
  have b: "md_raises picky_board (calls linked @ [Put ''/r/a.txt'' ''/a.txt'']) esp32 ''/sub''
     = Some (RemoteIOError RemoteFailure ''Invalid directory name: /sub'')"
    by (simp add: picky_board_def mdless_board_def)
  have c: "put_raises picky_board (calls linked @ [Put ''/r/a.txt'' ''/a.txt'', Md ''/sub'']) esp32
       ''/r/sub/b.txt'' ''/sub/b.txt''
     = Some (RemoteIOError RemoteFailure ''write failed'')"
    by (simp add: picky_board_def)
  have d: "sync picky_board
     [RegularFile ''/r/a.txt'', Directory ''/r/sub'' [RegularFile ''/r/sub/b.txt''],
      RegularFile ''/r/c.txt''] linked =
     (Inl (RemoteIOError RemoteFailure ''write failed''),
      linked\<lparr>calls := [Put ''/r/a.txt'' ''/a.txt'', Md ''/sub'', Put ''/r/sub/b.txt'' ''/sub/b.txt''],
        stdout := [''Copying /a.txt'', ''Creating folder /sub'', ''Invalid directory name: /sub'',
                   ''Copying /sub/b.txt'']\<rparr>)"
    by code_simp
  from a b c d sync_error_policy [OF a, of picky_board
     "[RegularFile ''/r/a.txt'', Directory ''/r/sub'' [RegularFile ''/r/sub/b.txt''], RegularFile ''/r/c.txt'']"
     "''/r/sub''"]
  show ?thesis by blast
qed

subsection \<open>The remote path\<close>

text \<open>
  Claim C1 asks for the path with the first occurrence of the root string removed, and
  only that one. \<^verbatim>\<open>str.replace\<close> removes every occurrence: with the folder
  \<^verbatim>\<open>/app\<close>, the file \<^verbatim>\<open>/app/lib/app/main.py\<close> is put to \<^verbatim>\<open>/lib/main.py\<close> and the
  directory \<^verbatim>\<open>/app/lib/app\<close> is created as \<^verbatim>\<open>/lib\<close>, in \<^verbatim>\<open>_copy_file\<close> and
  \<^verbatim>\<open>_create_folder\<close> and so in the run of \<^verbatim>\<open>sync\<close> over that tree.
\<close>

theorem copy_file_strips_every_occurrence:
  "calls (snd (copy_file board ''/app/lib/app/main.py'' (linked\<lparr>folder := ''/app''\<rparr>)))
     = [Put ''/app/lib/app/main.py'' ''/lib/main.py''] \<and>
   remove_first ''/app'' ''/app/lib/app/main.py'' = ''/lib/app/main.py'' \<and>
   calls (snd (create_folder board ''/app/lib/app'' (linked\<lparr>folder := ''/app''\<rparr>)))
     = [Md ''/lib''] \<and>
   remove_first ''/app'' ''/app/lib/app'' = ''/lib/app'' \<and>
   calls (snd (sync board
                 [Directory ''/app/lib'' [Directory ''/app/lib/app'' [RegularFile ''/app/lib/app/main.py'']]]
                 (linked\<lparr>folder := ''/app''\<rparr>)))
     = [Md ''/lib'', Md ''/lib'', Put ''/app/lib/app/main.py'' ''/lib/main.py'']"
  by code_simp

subsection \<open>connect\<close>

lemma attempt_cong:
  "caching s' = caching s \<Longrightarrow> port s' = port s \<Longrightarrow> reset s' = reset s \<Longrightarrow>
   attempt s' = attempt s \<and> address s' = address s"
  by (simp add: attempt_def address_def)

lemma disconnect_fields:
  "port (snd (disconnect ev s)) = port s \<and> caching (snd (disconnect ev s)) = caching s \<and>
   reset (snd (disconnect ev s)) = reset s \<and> folder (snd (disconnect ev s)) = folder s"
  by (simp add: disconnect_def print_def issue_def split: option.splits exn.splits)

lemma disconnect_calls:
  "calls (snd (disconnect ev s)) = calls s \<or> calls (snd (disconnect ev s)) = calls s @ [Close]"
  by (simp add: disconnect_def print_def issue_def split: option.splits exn.splits)

lemma except_fields:
  "calls (snd (except e s)) = calls s \<and> explorer_attr (snd (except e s)) = explorer_attr s \<and>
   fst (except e s) \<noteq> Inr True"
  by (simp add: except_def give_up_def print_def)








text \<open>
  Claim C5. When the port does not exist or is a directory, \<^verbatim>\<open>connect\<close> does not
  succeed and calls no constructor: beyond the \<^verbatim>\<open>close\<close> of an explorer the session
  still held, it issues no call. It returns False, unless that \<^verbatim>\<open>close\<close> raised an
  exception that \<^verbatim>\<open>connect\<close> does not catch, which then leaves \<^verbatim>\<open>connect\<close>.
\<close>

theorem connect_bad_port:
  assumes "\<not> port_exists ev (port s) \<or> port_is_dir ev (port s)"
  shows "fst (connect ev s) \<noteq> Inr True \<and>
         ((\<forall>e. fst (disconnect ev s) = Inl e \<longrightarrow> caught e) \<longrightarrow> fst (connect ev s) = Inr False) \<and>
         (\<forall>e. fst (disconnect ev s) = Inl e \<and> \<not> caught e \<longrightarrow> fst (connect ev s) = Inl e) \<and>
         (\<exists>t. calls (snd (connect ev s)) = calls s @ t \<and> (t = [] \<or> t = [Close]))"
proof -
  obtain r1 s1 where d: "disconnect ev s = (r1, s1)" by fastforce
  from disconnect_fields [of ev s] d have p: "port s1 = port s" by simp
  from disconnect_calls [of ev s] d have c: "calls s1 = calls s \<or> calls s1 = calls s @ [Close]" by simp
  show ?thesis
  proof (cases r1)
    case (Inl e)
    with d c show ?thesis
      by (auto simp: connect_def except_def give_up_def print_def)
  next
    case (Inr b)
    with d c p assms show ?thesis
      by (auto simp: connect_def print_def)
  qed
qed

theorem connect_bad_port_witness:
  "\<not> port_exists unplugged (port linked) \<and>
   connect unplugged linked =
     (Inr False,
      fresh\<lparr>calls := [Close],
            stdout := [''Port '' @ [CHR 0x27] @ ''/dev/ttyUSB0'' @ [CHR 0x27]
                       @ '' does not exist or is a folder!'']\<rparr>)"
proof -
  have a: "\<not> port_exists unplugged (port linked)"
    by (simp add: unplugged_def)
  then have b: "\<not> port_exists unplugged (port linked) \<or> port_is_dir unplugged (port linked)"
    by simp
  have c: "connect unplugged linked =
     (Inr False,
      fresh\<lparr>calls := [Close],
            stdout := [''Port '' @ [CHR 0x27] @ ''/dev/ttyUSB0'' @ [CHR 0x27]
                       @ '' does not exist or is a folder!'']\<rparr>)"
    by code_simp
  from a c connect_bad_port [OF b] show ?thesis by blast
qed

text \<open>
  Claim C6 does not hold as stated. A session whose \<^verbatim>\<open>close\<close> raises a remote I/O
  error keeps its explorer through a \<^verbatim>\<open>connect\<close> that fails on a transport error; and
  when the attempts run out, the session holds the explorer of the last attempt.
\<close>

theorem failed_connect_keeps_explorer:
  "fst (connect stuck_silent_board linked) = Inr False \<and>
   explorer_attr (snd (connect stuck_silent_board linked)) = Some esp32 \<and>
   fst (connect dead_board fresh) = Inr False \<and>
   explorer_attr (snd (connect dead_board fresh)) = Some limp"
  by code_simp

text \<open>
  Claim C6, amended. When \<^verbatim>\<open>connect\<close> fails before any attempt has returned an
  explorer (the port does not exist or is a directory, the opening \<^verbatim>\<open>disconnect\<close>
  raises, or the first constructor call raises), it does not return True and the session
  holds what \<^verbatim>\<open>disconnect\<close> left: no explorer when the session had none or when its
  \<^verbatim>\<open>close\<close> returned.
\<close>

theorem connect_failure_explorer:
  assumes "\<not> port_exists ev (port s) \<or> port_is_dir ev (port s) \<or>
           (\<exists>e. fst (disconnect ev s) = Inl e) \<or>
           (\<exists>e. new_explorer ev (calls (snd (disconnect ev s))) (caching s) (address s) (reset s) = Inl e)"
  shows "fst (connect ev s) \<noteq> Inr True \<and>
         explorer_attr (snd (connect ev s)) = explorer_attr (snd (disconnect ev s)) \<and>
         (explorer_attr s = None \<or> (\<exists>h. explorer_attr s = Some h \<and> close_raises ev (calls s) h = None)
            \<longrightarrow> explorer_attr (snd (connect ev s)) = None)"
proof -
  obtain r1 s1 where d: "disconnect ev s = (r1, s1)" by fastforce
  from disconnect_fields [of ev s] d have
    same: "caching s1 = caching s" "port s1 = port s" "reset s1 = reset s"
    by simp_all
  from attempt_cong [OF same] have att: "attempt s1 = attempt s" "address s1 = address s"
    by simp_all
  have cleared: "explorer_attr s1 = None"
    if "explorer_attr s = None \<or> (\<exists>h. explorer_attr s = Some h \<and> close_raises ev (calls s) h = None)"
    using that d by (auto simp: disconnect_def)
  have main: "fst (connect ev s) \<noteq> Inr True \<and> explorer_attr (snd (connect ev s)) = explorer_attr s1"
  proof (cases r1)
    case (Inl e)
    with d except_fields [of e s1] show ?thesis
      by (simp add: connect_def)
  next
    case (Inr b)
    show ?thesis
    proof (cases "\<not> port_exists ev (port s) \<or> port_is_dir ev (port s)")
      case True
      with d Inr same show ?thesis
        by (auto simp: connect_def print_def)
    next
      case False
      with assms d Inr obtain e where
        e: "new_explorer ev (calls s1) (caching s) (address s) (reset s) = Inl e"
        by auto
      have "[0..<CONNECT_TRIES] = 0 # [1..<CONNECT_TRIES]"
        by (simp add: CONNECT_TRIES_def upt_conv_Cons)
      then have "connect_tries ev [0..<CONNECT_TRIES] s1 = (Inl e, issue (attempt s1) s1)"
        using e by (simp add: same att Let_def)
      with d Inr False same except_fields [of e "issue (attempt s1) s1"] show ?thesis
        by (simp add: connect_def issue_def)
    qed
  qed
  with cleared d show ?thesis by simp
qed

theorem connect_failure_explorer_witness:
  "new_explorer silent_board (calls (snd (disconnect silent_board linked)))
     (caching linked) (address linked) (reset linked) = Inl (ConError ''failed to access port'') \<and>
   explorer_attr linked = Some esp32 \<and> close_raises silent_board (calls linked) esp32 = None \<and>
   fst (connect silent_board linked) = Inr False \<and>
   explorer_attr (snd (connect silent_board linked)) = None"
proof -
  have a: "new_explorer silent_board (calls (snd (disconnect silent_board linked)))
     (caching linked) (address linked) (reset linked) = Inl (ConError ''failed to access port'')"
    by (simp add: silent_board_def)
  have b: "explorer_attr linked = Some esp32"
    by (simp add: linked_def)
  have c: "close_raises silent_board (calls linked) esp32 = None"
    by (simp add: silent_board_def board_def)
  have d: "fst (connect silent_board linked) = Inr False"
    by code_simp
  from a have "\<not> port_exists silent_board (port linked) \<or> port_is_dir silent_board (port linked) \<or>
           (\<exists>e. fst (disconnect silent_board linked) = Inl e) \<or>
           (\<exists>e. new_explorer silent_board (calls (snd (disconnect silent_board linked)))
                  (caching linked) (address linked) (reset linked) = Inl e)"
    by blast
  from connect_failure_explorer [OF this] a b c d show ?thesis by blast
qed

subsection \<open>The with statement\<close>

lemma tries_true_explorer:
  "fst (connect_tries ev js s) = Inr True \<Longrightarrow> explorer_attr (snd (connect_tries ev js s)) \<noteq> None"
proof (induction js arbitrary: s)
  case Nil
  then show ?case by simp
next
  case (Cons i js)
  show ?case
  proof (cases "new_explorer ev (calls s) (caching s) (address s) (reset s)")
    case (Inl e)
    with Cons.prems show ?thesis by (simp add: Let_def)
  next
    case (Inr h)
    show ?thesis
    proof (cases "truthy h")
      case True
      with Inr Cons.prems show ?thesis
        by (simp add: Let_def explorer_def print_def split: sum.splits)
    next
      case False
      with Inr Cons.prems Cons.IH show ?thesis
        by (simp add: Let_def explorer_def)
    qed
  qed
qed

lemma connect_true_explorer:
  assumes "fst (connect ev s) = Inr True"
  shows "explorer_attr (snd (connect ev s)) \<noteq> None"
proof -
  obtain r1 s1 where d: "disconnect ev s = (r1, s1)" by fastforce
  obtain r2 s2 where t: "connect_tries ev [0..<CONNECT_TRIES] s1 = (r2, s2)" by fastforce
  from assms d t except_fields have r: "r2 = Inr True" "connect ev s = (Inr True, s2)"
    by (auto simp: connect_def give_up_def split: sum.splits if_splits bool.splits)
  from tries_true_explorer [of ev "[0..<CONNECT_TRIES]" s1] t r show ?thesis by simp
qed

text \<open>
  Claim C8. When \<^verbatim>\<open>connect\<close> does not return True, the \<^verbatim>\<open>with\<close> statement raises
  (the exception of \<^verbatim>\<open>connect\<close>, or "can't connect") and its outcome does not depend
  on the body, which is not run. When \<^verbatim>\<open>connect\<close> returns True, then however the body
  ends, with a value or with an exception, the session that results is the one
  \<^verbatim>\<open>disconnect\<close> returns on the session the body left; if that \<^verbatim>\<open>disconnect\<close>
  returns True the outcome is the body's, and if it returns False the statement raises
  "can't disconnect", also after a body that returned. In \<^verbatim>\<open>main\<close>, after a connect
  that returned True, the calls end with one \<^verbatim>\<open>close\<close>, issued after every call of
  the walk.
\<close>

theorem scoped_session:
  "(fst (connect ev s) \<noteq> Inr True \<longrightarrow>
      with_mpsync ev body s =
        (Inl (case fst (connect ev s) of Inl e \<Rightarrow> e | Inr b \<Rightarrow> Exception ''can't connect''),
         snd (connect ev s))) \<and>
   (\<forall>s1 r s2. connect ev s = (Inr True, s1) \<and> body s1 = (r, s2) \<longrightarrow>
      snd (with_mpsync ev body s) = snd (disconnect ev s2) \<and>
      (fst (disconnect ev s2) = Inr True \<longrightarrow> fst (with_mpsync ev body s) = r) \<and>
      (fst (disconnect ev s2) = Inr False \<longrightarrow>
         fst (with_mpsync ev body s) = Inl (Exception ''can't disconnect''))) \<and>
   (\<forall>s1. connect ev s = (Inr True, s1) \<longrightarrow>
      (\<exists>t. calls (snd (main ev tree s)) = calls s1 @ t @ [Close] \<and> Close \<notin> set t))"
proof (intro conjI allI impI)
  assume "fst (connect ev s) \<noteq> Inr True"
  then show "with_mpsync ev body s =
        (Inl (case fst (connect ev s) of Inl e \<Rightarrow> e | Inr b \<Rightarrow> Exception ''can't connect''),
         snd (connect ev s))"
    by (cases "connect ev s") (auto simp: with_mpsync_def enter_def split: sum.splits bool.splits)
next
  fix s1 r s2
  assume a: "connect ev s = (Inr True, s1) \<and> body s1 = (r, s2)"
  then show "snd (with_mpsync ev body s) = snd (disconnect ev s2)"
    by (cases "disconnect ev s2") (auto simp: with_mpsync_def enter_def exit_def split: sum.splits bool.splits)
  from a show "fst (with_mpsync ev body s) = r" if "fst (disconnect ev s2) = Inr True"
    using that
    by (cases "disconnect ev s2") (auto simp: with_mpsync_def enter_def exit_def split: sum.splits bool.splits)
  from a show "fst (with_mpsync ev body s) = Inl (Exception ''can't disconnect'')"
    if "fst (disconnect ev s2) = Inr False"
    using that
    by (cases "disconnect ev s2") (auto simp: with_mpsync_def enter_def exit_def split: sum.splits bool.splits)
next
  fix s1
  assume c: "connect ev s = (Inr True, s1)"
  with connect_true_explorer [of ev s] obtain h where h: "explorer_attr s1 = Some h"
    by auto
  define s1' where "s1' = print (''Start syncing folder '' @ [CHR 0x27] @ folder s1 @ [CHR 0x27]
                        @ '' to board at '' @ [CHR 0x27] @ port s1 @ [CHR 0x27]) s1"
  have s1': "explorer_attr s1' = Some h" "calls s1' = calls s1" "folder s1' = folder s1"
    using h by (simp_all add: s1'_def print_def)
  obtain r s2 where b: "sync ev tree s1' = (r, s2)" by fastforce
  from sync_calls_prefix [of ev tree s1'] b s1' obtain t where
    t: "calls s2 = calls s1 @ t" "prefix t (walk (folder s1) tree)"
    by auto
  from t(2) have "set t \<subseteq> set (walk (folder s1) tree)"
    by (rule set_mono_prefix)
  with walk_calls have nc: "Close \<notin> set t" by blast
  from sync_run [OF s1'(1), of ev tree] b have e2: "explorer_attr s2 = Some h" by simp
  then have "calls (snd (disconnect ev s2)) = calls s2 @ [Close]"
    by (simp add: disconnect_def print_def issue_def split: option.splits exn.splits)
  moreover have "snd (main ev tree s) = snd (disconnect ev s2)"
    using c b
    by (cases "disconnect ev s2")
       (auto simp: main_def with_mpsync_def enter_def exit_def s1'_def split: sum.splits bool.splits)
  ultimately have "calls (snd (main ev tree s)) = calls s1 @ t @ [Close]"
    using t(1) by simp
  with nc show "\<exists>t. calls (snd (main ev tree s)) = calls s1 @ t @ [Close] \<and> Close \<notin> set t"
    by blast
qed

theorem scoped_session_witness:
  "fst (connect unplugged fresh) \<noteq> Inr True \<and>
   with_mpsync unplugged (sync unplugged demo_tree) fresh =
     (Inl (Exception ''can't connect''), snd (connect unplugged fresh)) \<and>
   fst (connect stuck_board fresh) = Inr True \<and>
   fst (sync stuck_board demo_tree (snd (connect stuck_board fresh))) = Inr () \<and>
   fst (disconnect stuck_board (snd (sync stuck_board demo_tree (snd (connect stuck_board fresh)))))
     = Inr False \<and>
   fst (with_mpsync stuck_board (sync stuck_board demo_tree) fresh) = Inl (Exception ''can't disconnect'') \<and>
   calls (snd (main board demo_tree fresh)) =
     [Construct False ''ser:/dev/ttyUSB0'' False, Put ''/r/a.txt'' ''/a.txt'', Md ''/sub'',
      Put ''/r/sub/b.txt'' ''/sub/b.txt'', Close]"
proof -
  have a: "fst (connect unplugged fresh) \<noteq> Inr True"
    by code_simp
  have b: "fst (connect unplugged fresh) = Inr False"
    by code_simp
  have c: "connect stuck_board fresh = (Inr True, snd (connect stuck_board fresh))"
    "fst (connect stuck_board fresh) = Inr True"
    by code_simp+
  have d: "sync stuck_board demo_tree (snd (connect stuck_board fresh)) =
     (Inr (), snd (sync stuck_board demo_tree (snd (connect stuck_board fresh))))"
    "fst (sync stuck_board demo_tree (snd (connect stuck_board fresh))) = Inr ()"
    by code_simp+
  have e: "fst (disconnect stuck_board (snd (sync stuck_board demo_tree (snd (connect stuck_board fresh)))))
     = Inr False"
    by code_simp
  have f: "calls (snd (main board demo_tree fresh)) =
     [Construct False ''ser:/dev/ttyUSB0'' False, Put ''/r/a.txt'' ''/a.txt'', Md ''/sub'',
      Put ''/r/sub/b.txt'' ''/sub/b.txt'', Close]"
    by code_simp
  note th1 = scoped_session [of unplugged fresh "sync unplugged demo_tree" demo_tree]
  note th2 = scoped_session [of stuck_board fresh "sync stuck_board demo_tree" demo_tree]
  from th1 a b have one: "with_mpsync unplugged (sync unplugged demo_tree) fresh =
     (Inl (Exception ''can't connect''), snd (connect unplugged fresh))"
    by simp
  from th2 c(1) d(1) e have two:
    "fst (with_mpsync stuck_board (sync stuck_board demo_tree) fresh) = Inl (Exception ''can't disconnect'')"
    by blast
  from a one c(2) d(2) e two f show ?thesis by blast
qed

end
